theory Spec2Isabelle
  imports Complex_Main "HOL-Library.Word" "HOL-Library.Sublist" "HOL-Library.AList"
begin

section \<open>Strings\<close>

text \<open>
  A JavaScript string is a sequence of 16-bit code units. \<open>js\<close> writes an ASCII
  literal as such a sequence.
\<close>

type_synonym jsstr = "16 word list"

definition js :: "string \<Rightarrow> jsstr" where
  "js s = map (\<lambda>c. of_nat (of_char c)) s"

text \<open>
  \<open>String.prototype.trim\<close> removes the code units of ECMAScript's WhiteSpace and
  LineTerminator productions from both ends: TAB, LF, VT, FF, CR, SP, NBSP, U+1680,
  U+2000 to U+200A, U+2028, U+2029, U+202F, U+205F, U+3000 and U+FEFF.
\<close>

definition is_white :: "16 word \<Rightarrow> bool" where
  "is_white c \<longleftrightarrow>
     c = 0x09 \<or> c = 0x0A \<or> c = 0x0B \<or> c = 0x0C \<or> c = 0x0D \<or> c = 0x20 \<or> c = 0xA0 \<or>
     c = 0x1680 \<or> (0x2000 \<le> c \<and> c \<le> 0x200A) \<or> c = 0x2028 \<or> c = 0x2029 \<or>
     c = 0x202F \<or> c = 0x205F \<or> c = 0x3000 \<or> c = 0xFEFF"

definition trim :: "jsstr \<Rightarrow> jsstr" where
  "trim s = rev (dropWhile is_white (rev (dropWhile is_white s)))"

text \<open>The code unit of a decimal digit.\<close>

definition dg :: "nat \<Rightarrow> 16 word" where
  "dg a = of_nat (48 + a)"

text \<open>The decimal numeral of a natural number, as in the text of an array index.\<close>

fun dec :: "nat \<Rightarrow> jsstr" where
  "dec n = (if n < 10 then [dg n] else dec (n div 10) @ [dg (n mod 10)])"

declare dec.simps [simp del]

section \<open>Dates\<close>

text \<open>
  A \<open>Date\<close> object holds a time value: a whole number of milliseconds since the
  epoch, or NaN (an invalid date). \<open>TimeClip\<close> is the range check every constructor
  and setter of \<open>Date\<close> ends with.
\<close>

datatype date = Invalid | Time int

definition msPerDay :: int where
  "msPerDay = 86400000"

definition Day :: "int \<Rightarrow> int" where
  "Day t = t div msPerDay"

definition TimeClip :: "int \<Rightarrow> date" where
  "TimeClip t = (if \<bar>t\<bar> > 8640000000000000 then Invalid else Time t)"

subsection \<open>The calendar\<close>

text \<open>
  Days are counted from 1 January 1970. \<open>YearFromDay\<close> is ECMAScript's
  \<open>YearFromTime\<close>, the largest year whose first day is not after the given day, found
  by counting up from a year that is not too late.
\<close>

definition InLeapYear :: "int \<Rightarrow> bool" where
  "InLeapYear y \<longleftrightarrow> y mod 4 = 0 \<and> (y mod 100 \<noteq> 0 \<or> y mod 400 = 0)"

definition DayFromYear :: "int \<Rightarrow> int" where
  "DayFromYear y =
     365 * (y - 1970) + (y - 1969) div 4 - (y - 1901) div 100 + (y - 1601) div 400"

lemma DayFromYear_step: "DayFromYear y < DayFromYear (y + 1)"
proof -
  have mono: "a \<le> a' \<Longrightarrow> b' \<le> b + 1 \<Longrightarrow> c \<le> c' \<Longrightarrow>
      365 * (y - 1970) + a - b + c < 365 * (y + 1 - 1970) + a' - b' + c'"
    for a a' b b' c c' :: int
    by (simp add: algebra_simps)
  have "(y - 1969) div 4 \<le> (y + 1 - 1969) div 4"
    by (rule zdiv_mono1) simp_all
  moreover have "(y + 1 - 1901) div 100 \<le> (y - 1901) div 100 + 1"
    by linarith
  moreover have "(y - 1601) div 400 \<le> (y + 1 - 1601) div 400"
    by (rule zdiv_mono1) simp_all
  ultimately show ?thesis
    unfolding DayFromYear_def by (rule mono)
qed

function year_from :: "int \<Rightarrow> int \<Rightarrow> int" where
  "year_from y d = (if DayFromYear (y + 1) \<le> d then year_from (y + 1) d else y)"
  by pat_completeness auto
termination
proof (relation "measure (\<lambda>(y, d). nat (d + 1 - DayFromYear (y + 1)))")
  show "wf (measure (\<lambda>(y, d). nat (d + 1 - DayFromYear (y + 1))))"
    by simp
next
  fix y d :: int
  assume "DayFromYear (y + 1) \<le> d"
  moreover have "DayFromYear (y + 1) < DayFromYear (y + 1 + 1)"
    by (rule DayFromYear_step)
  ultimately show "((y + 1, d), (y, d)) \<in> measure (\<lambda>(y, d). nat (d + 1 - DayFromYear (y + 1)))"
    by simp
qed

declare year_from.simps [simp del]

definition YearFromDay :: "int \<Rightarrow> int" where
  "YearFromDay d = year_from (1970 + (if 0 \<le> d then d div 366 else d div 365)) d"

definition month_lengths :: "int \<Rightarrow> int list" where
  "month_lengths y = [31, if InLeapYear y then 29 else 28, 31, 30, 31, 30, 31, 31, 30, 31, 30, 31]"

text \<open>The month (from 0) and the day within it (from 0) of a day within a year.\<close>

fun month_walk :: "int list \<Rightarrow> nat \<Rightarrow> int \<Rightarrow> nat \<times> int" where
  "month_walk [] m n = (m, n)"
| "month_walk (l # ls) m n = (if n < l then (m, n) else month_walk ls (Suc m) (n - l))"

definition WeekDay :: "int \<Rightarrow> int" where
  "WeekDay d = (d + 4) mod 7"

subsection \<open>The host\<close>

text \<open>
  A number is a finite value or an infinity (no source path here makes a NaN, and the
  sign of zero is not kept).
\<close>

datatype number = Fin rat | PosInf | NegInf

text \<open>
  What the host provides and the source only calls: the offset of local time from UTC
  (ECMAScript's \<open>LocalTZA(t, true)\<close> at an instant and \<open>LocalTZA(t, false)\<close> at a local
  time), \<open>Date.parse\<close>, \<open>Date.prototype.toISOString\<close> on a valid time value, and
  the text of a number.
\<close>

record platform =
  LocalTZA_utc :: "int \<Rightarrow> int"
  LocalTZA_local :: "int \<Rightarrow> int"
  Date_parse :: "jsstr \<Rightarrow> date"
  toISOString :: "int \<Rightarrow> jsstr"
  Number_toString :: "number \<Rightarrow> jsstr"

definition LocalTime :: "platform \<Rightarrow> int \<Rightarrow> int" where
  "LocalTime P t = t + LocalTZA_utc P t"

definition UTC :: "platform \<Rightarrow> int \<Rightarrow> int" where
  "UTC P t = t - LocalTZA_local P t"

text \<open>
  \<open>d.setHours(0, 0, 0, 0)\<close>: the time value the object holds afterwards. An invalid
  date stays invalid; a valid one moves to the start of its local day.
\<close>

definition setHours0 :: "platform \<Rightarrow> date \<Rightarrow> date" where
  "setHours0 P d =
     (case d of
        Invalid \<Rightarrow> Invalid
      | Time t \<Rightarrow> TimeClip (UTC P (Day (LocalTime P t) * msPerDay)))"

text \<open>\<open>a < b\<close> on two \<open>Date\<close> objects compares the time values; NaN compares false.\<close>

definition date_lt :: "date \<Rightarrow> date \<Rightarrow> bool" where
  "date_lt a b = (case (a, b) of (Time x, Time y) \<Rightarrow> x < y | _ \<Rightarrow> False)"

text \<open>
  \<open>Date.prototype.toDateString\<close> writes the weekday, the month, the day of the month
  and the year of the local day of a valid date, in this order and each in a fixed
  form, and \<open>Invalid Date\<close> otherwise. The text is held as these four fields.
\<close>

datatype datestring = InvalidDateString | DateString int nat int int

definition toDateString :: "platform \<Rightarrow> date \<Rightarrow> datestring" where
  "toDateString P d =
     (case d of
        Invalid \<Rightarrow> InvalidDateString
      | Time t \<Rightarrow>
          let day = Day (LocalTime P t); y = YearFromDay day;
              (m, r) = month_walk (month_lengths y) 0 (day - DayFromYear y)
          in DateString (WeekDay day) m (r + 1) y)"

section \<open>Tasks and the component state\<close>

text \<open>The interface \<open>Todo\<close>; the field \<open>id\<close> is \<open>tid\<close> here.\<close>

record Todo =
  tid :: int
  title :: jsstr
  completed :: bool
  createdAt :: date
  dueDate :: "date option"

text \<open>The three \<open>useState\<close> cells of \<open>TodoApp\<close>.\<close>

record app =
  todos :: "Todo list"
  inputValue :: jsstr
  selectedDate :: jsstr

text \<open>
  \<open>addTodo\<close> reads the clock twice: \<open>Date.now()\<close> for the id and \<open>new Date()\<close> for
  \<open>createdAt\<close>. Both readings are arguments. \<open>new Date(selectedDate)\<close> on a string
  is \<open>Date.parse\<close>.
\<close>

definition newTodo :: "platform \<Rightarrow> int \<Rightarrow> int \<Rightarrow> jsstr \<Rightarrow> jsstr \<Rightarrow> Todo" where
  "newTodo P now_id now_created input selected =
     \<lparr> tid = now_id,
       title = trim input,
       completed = False,
       createdAt = Time now_created,
       dueDate = (if selected \<noteq> [] then Some (Date_parse P selected) else None) \<rparr>"

definition addTodo :: "platform \<Rightarrow> int \<Rightarrow> int \<Rightarrow> app \<Rightarrow> app" where
  "addTodo P now_id now_created st =
     (if trim (inputValue st) \<noteq> [] then
        st \<lparr> todos := newTodo P now_id now_created (inputValue st) (selectedDate st) # todos st,
             inputValue := [],
             selectedDate := [] \<rparr>
      else st)"

text \<open>
  The caller's \<open>add(title, dueDate)\<close>: the two input fields are filled
  (\<open>setInputValue\<close>, \<open>setSelectedDate\<close>) and ADD is pressed.
\<close>

definition add :: "platform \<Rightarrow> jsstr \<Rightarrow> jsstr \<Rightarrow> int \<Rightarrow> int \<Rightarrow> app \<Rightarrow> app" where
  "add P ttl sel now_id now_created st =
     addTodo P now_id now_created (st \<lparr> inputValue := ttl, selectedDate := sel \<rparr>)"

definition toggleTodo :: "int \<Rightarrow> Todo list \<Rightarrow> Todo list" where
  "toggleTodo i ts =
     map (\<lambda>todo. if tid todo = i then todo \<lparr> completed := \<not> completed todo \<rparr> else todo) ts"

definition deleteTodo :: "int \<Rightarrow> Todo list \<Rightarrow> Todo list" where
  "deleteTodo i ts = filter (\<lambda>todo. tid todo \<noteq> i) ts"

text \<open>The handler of the clear-completed button.\<close>

definition clearCompleted :: "Todo list \<Rightarrow> Todo list" where
  "clearCompleted ts = filter (\<lambda>todo. \<not> completed todo) ts"

definition completedCount :: "Todo list \<Rightarrow> nat" where
  "completedCount ts = length (filter completed ts)"

definition totalCount :: "Todo list \<Rightarrow> nat" where
  "totalCount ts = length ts"

text \<open>
  \<open>isOverdue\<close> calls \<open>setHours\<close> on a fresh \<open>today\<close> and on the \<open>Date\<close> object it is
  given, which is the one the task holds. The result is the answer together with the
  task's \<open>dueDate\<close> as the call leaves it.
\<close>

definition isOverdue :: "platform \<Rightarrow> int \<Rightarrow> date option \<Rightarrow> bool \<times> date option" where
  "isOverdue P now due =
     (case due of
        None \<Rightarrow> (False, None)
      | Some d \<Rightarrow>
          let today = setHours0 P (Time now);
              d' = setHours0 P d
          in (date_lt d' today, Some d'))"

definition isDueToday :: "platform \<Rightarrow> int \<Rightarrow> date option \<Rightarrow> bool" where
  "isDueToday P now due =
     (case due of
        None \<Rightarrow> False
      | Some d \<Rightarrow> toDateString P d = toDateString P (Time now))"

definition initial :: app where
  "initial = \<lparr> todos = [], inputValue = [], selectedDate = [] \<rparr>"

text \<open>
  A run of \<open>add\<close> calls, each with its title, its date text and its two clock
  readings.
\<close>

type_synonym call = "jsstr \<times> jsstr \<times> int \<times> int"

fun adds :: "platform \<Rightarrow> call list \<Rightarrow> app \<Rightarrow> app" where
  "adds P [] st = st"
| "adds P ((ttl, sel, now_id, now_created) # cs) st =
     adds P cs (add P ttl sel now_id now_created st)"

text \<open>The reading of \<open>Date.now()\<close> in a call.\<close>

definition reading :: "call \<Rightarrow> int" where
  "reading c = fst (snd (snd c))"

section \<open>Persistence\<close>

text \<open>
  The value \<open>JSON.parse\<close> builds: an object is the list of its properties in
  enumeration order, with no key twice.
\<close>

datatype json =
    JNull
  | JBool bool
  | JNum number
  | JStr jsstr
  | JArr "json list"
  | JObj "(jsstr \<times> json) list"

text \<open>
  What \<open>localStorage.getItem('todos')\<close> returns is \<open>null\<close> or a text. The source
  asks two things of the text: whether it is truthy (not empty) and what
  \<open>JSON.parse\<close> makes of it, a \<open>SyntaxError\<close> or a value. The item is held as the
  answers.
\<close>

datatype saved = EmptyText | BadText | JsonText json

datatype error = SyntaxError | TypeError

text \<open>
  \<open>JSON.stringify\<close> of a task: the properties in the order \<open>addTodo\<close> wrote them; a
  \<open>Date\<close> through its \<open>toJSON\<close> (the ISO text, \<open>null\<close> when invalid); a \<open>dueDate\<close>
  that is \<open>undefined\<close> left out.
\<close>

definition date_json :: "platform \<Rightarrow> date \<Rightarrow> json" where
  "date_json P d = (case d of Invalid \<Rightarrow> JNull | Time t \<Rightarrow> JStr (toISOString P t))"

definition todo_json :: "platform \<Rightarrow> Todo \<Rightarrow> json" where
  "todo_json P t =
     JObj ([(js ''id'', JNum (Fin (of_int (tid t)))),
            (js ''title'', JStr (title t)),
            (js ''completed'', JBool (completed t)),
            (js ''createdAt'', date_json P (createdAt t))] @
           (case dueDate t of None \<Rightarrow> [] | Some d \<Rightarrow> [(js ''dueDate'', date_json P d)]))"

text \<open>
  The save effect, \<open>localStorage.setItem('todos', JSON.stringify(todos))\<close>: the item
  stored afterwards.
\<close>

definition save :: "platform \<Rightarrow> Todo list \<Rightarrow> saved option" where
  "save P ts = Some (JsonText (JArr (map (todo_json P) ts)))"

text \<open>The first exception of a sequence of evaluations ends it.\<close>

fun collect :: "('e + 'a) list \<Rightarrow> 'e + 'a list" where
  "collect [] = Inr []"
| "collect (Inl e # rs) = Inl e"
| "collect (Inr a # rs) = (case collect rs of Inl e \<Rightarrow> Inl e | Inr as \<Rightarrow> Inr (a # as))"

fun join_with :: "jsstr \<Rightarrow> jsstr list \<Rightarrow> jsstr" where
  "join_with sep [] = []"
| "join_with sep [s] = s"
| "join_with sep (s # t # ss) = s @ sep @ join_with sep (t # ss)"

text \<open>
  \<open>ToString\<close> of a parsed value. A parsed object has no callable property of its own,
  so an own \<open>toString\<close> hides \<open>Object.prototype.toString\<close> and the conversion throws;
  an array goes through \<open>Array.prototype.join\<close>, where \<open>null\<close> is the empty text.
\<close>

fun to_text :: "platform \<Rightarrow> json \<Rightarrow> error + jsstr" where
  "to_text P JNull = Inr (js ''null'')"
| "to_text P (JBool b) = Inr (if b then js ''true'' else js ''false'')"
| "to_text P (JNum n) = Inr (Number_toString P n)"
| "to_text P (JStr s) = Inr s"
| "to_text P (JArr xs) =
     (case collect (map (\<lambda>x. if x = JNull then Inr [] else to_text P x) xs) of
        Inl e \<Rightarrow> Inl e
      | Inr ss \<Rightarrow> Inr (join_with (js '','') ss))"
| "to_text P (JObj kvs) =
     (if js ''toString'' \<in> fst ` set kvs then Inl TypeError else Inr (js ''[object Object]''))"

text \<open>
  \<open>new Date(v)\<close> for \<open>v\<close> read from a parsed value (\<open>None\<close> is \<open>undefined\<close>): a text
  is parsed, an array or object is first turned into a text, anything else into a number.
\<close>

definition new_Date :: "platform \<Rightarrow> json option \<Rightarrow> error + date" where
  "new_Date P v =
     (case v of
        None \<Rightarrow> Inr Invalid
      | Some JNull \<Rightarrow> Inr (Time 0)
      | Some (JBool b) \<Rightarrow> Inr (Time (if b then 1 else 0))
      | Some (JNum n) \<Rightarrow>
          Inr (case n of
                 Fin r \<Rightarrow> if \<bar>r\<bar> > 8640000000000000 then Invalid
                          else Time (if 0 \<le> r then \<lfloor>r\<rfloor> else \<lceil>r\<rceil>)
               | _ \<Rightarrow> Invalid)
      | Some (JStr s) \<Rightarrow> Inr (Date_parse P s)
      | Some x \<Rightarrow> (case to_text P x of Inl e \<Rightarrow> Inl e | Inr s \<Rightarrow> Inr (Date_parse P s)))"

text \<open>
  A property of a loaded task is a parsed value or the \<open>Date\<close> object the load effect
  made.
\<close>

datatype field = Json json | DateObj date

type_synonym obj = "(jsstr \<times> field) list"

text \<open>
  The properties \<open>{...todo}\<close> copies: those of an object, the elements of an array
  and the code units of a text under their indices, and none of a number, a boolean or
  \<open>null\<close>.
\<close>

definition own_props :: "json \<Rightarrow> (jsstr \<times> json) list" where
  "own_props v =
     (case v of
        JObj kvs \<Rightarrow> kvs
      | JArr xs \<Rightarrow> zip (map dec [0..<length xs]) xs
      | JStr s \<Rightarrow> zip (map dec [0..<length s]) (map (\<lambda>c. JStr [c]) s)
      | _ \<Rightarrow> [])"

text \<open>\<open>todo.createdAt\<close>: a \<open>TypeError\<close> on \<open>null\<close>, \<open>undefined\<close> where there is none.\<close>

definition get_createdAt :: "json \<Rightarrow> error + json option" where
  "get_createdAt v =
     (case v of
        JNull \<Rightarrow> Inl TypeError
      | JObj kvs \<Rightarrow> Inr (map_of kvs (js ''createdAt''))
      | _ \<Rightarrow> Inr None)"

text \<open>The callback of \<open>parsedTodos.map\<close>: \<open>{...todo, createdAt: new Date(todo.createdAt)}\<close>.\<close>

definition revive :: "platform \<Rightarrow> json \<Rightarrow> error + obj" where
  "revive P todo =
     (case get_createdAt todo of
        Inl e \<Rightarrow> Inl e
      | Inr c \<Rightarrow>
          (case new_Date P c of
             Inl e \<Rightarrow> Inl e
           | Inr d \<Rightarrow>
               Inr (AList.update (js ''createdAt'') (DateObj d)
                      (map (\<lambda>(k, v). (k, Json v)) (own_props todo)))))"

text \<open>
  \<open>parsedTodos.map(...)\<close>: only an array has a \<open>map\<close> to call (a parsed object's own
  \<open>map\<close> is no function).
\<close>

definition revive_all :: "platform \<Rightarrow> json \<Rightarrow> error + obj list" where
  "revive_all P v = (case v of JArr xs \<Rightarrow> collect (map (revive P) xs) | _ \<Rightarrow> Inl TypeError)"

text \<open>
  The load effect, run once on mount, when \<open>todos\<close> is the \<open>[]\<close> of \<open>useState\<close>: the
  \<open>todos\<close> it leaves, and what \<open>console.error\<close> was given by the \<open>catch\<close>.
\<close>

definition load :: "platform \<Rightarrow> saved option \<Rightarrow> obj list \<times> error option" where
  "load P savedTodos =
     (case savedTodos of
        None \<Rightarrow> ([], None)
      | Some EmptyText \<Rightarrow> ([], None)
      | Some BadText \<Rightarrow> ([], Some SyntaxError)
      | Some (JsonText v) \<Rightarrow>
          (case revive_all P v of
             Inl e \<Rightarrow> ([], Some e)
           | Inr ts \<Rightarrow> (ts, None)))"

text \<open>
  A loaded object read at the interface \<open>Todo\<close>: \<open>None\<close> when a field has another type
  than the interface gives it. A \<open>dueDate\<close> that is missing reads as one that is
  \<open>undefined\<close>.
\<close>

definition read_todo :: "obj \<Rightarrow> Todo option" where
  "read_todo ob =
     (case (map_of ob (js ''id''), map_of ob (js ''title''), map_of ob (js ''completed''),
            map_of ob (js ''createdAt'')) of
        (Some (Json (JNum (Fin r))), Some (Json (JStr s)), Some (Json (JBool b)), Some (DateObj c)) \<Rightarrow>
          if r = of_int \<lfloor>r\<rfloor> then
            (case map_of ob (js ''dueDate'') of
               None \<Rightarrow> Some \<lparr> tid = \<lfloor>r\<rfloor>, title = s, completed = b, createdAt = c, dueDate = None \<rparr>
             | Some (DateObj d) \<Rightarrow>
                 Some \<lparr> tid = \<lfloor>r\<rfloor>, title = s, completed = b, createdAt = c, dueDate = Some d \<rparr>
             | Some (Json j) \<Rightarrow> None)
          else None
      | _ \<Rightarrow> None)"

text \<open>
  The shape of what \<open>save\<close> writes for one task: an object with the properties \<open>id\<close> (a
  whole number), \<open>title\<close> (a text), \<open>completed\<close> (a boolean), \<open>createdAt\<close> and, when it
  is there, \<open>dueDate\<close> (each a text or \<open>null\<close>), in this order.
\<close>

definition is_date_json :: "json \<Rightarrow> bool" where
  "is_date_json v = (case v of JStr s \<Rightarrow> True | JNull \<Rightarrow> True | _ \<Rightarrow> False)"

definition is_saved_todo :: "json \<Rightarrow> bool" where
  "is_saved_todo v =
     (case v of
        JObj kvs \<Rightarrow>
          (map fst kvs = [js ''id'', js ''title'', js ''completed'', js ''createdAt'']
           \<or> map fst kvs = [js ''id'', js ''title'', js ''completed'', js ''createdAt'', js ''dueDate''])
          \<and> (case map snd kvs of
                JNum (Fin r) # JStr s # JBool b # ds \<Rightarrow> r = of_int \<lfloor>r\<rfloor> \<and> list_all is_date_json ds
              | _ \<Rightarrow> False)
      | _ \<Rightarrow> False)"

definition is_saved_todos :: "json \<Rightarrow> bool" where
  "is_saved_todos v = (case v of JArr xs \<Rightarrow> list_all is_saved_todo xs | _ \<Rightarrow> False)"

text \<open>
  An element the callback of the load effect cannot throw on: it is not \<open>null\<close>, and
  its \<open>createdAt\<close>, if it has one, is no array and no object.
\<close>

definition revivable :: "json \<Rightarrow> bool" where
  "revivable v =
     (case v of
        JNull \<Rightarrow> False
      | JObj kvs \<Rightarrow>
          (case map_of kvs (js ''createdAt'') of
             Some (JArr xs) \<Rightarrow> False
           | Some (JObj ps) \<Rightarrow> False
           | _ \<Rightarrow> True)
      | _ \<Rightarrow> True)"

section \<open>A reference host\<close>

text \<open>
  A concrete host for running the model: a zone with a fixed offset from UTC, and
  \<open>Date.parse\<close> and \<open>toISOString\<close> on ECMAScript's date-time format.
\<close>

definition MakeDay :: "int \<Rightarrow> nat \<Rightarrow> int \<Rightarrow> int" where
  "MakeDay y m dt = DayFromYear y + sum_list (take m (month_lengths y)) + dt - 1"

definition pad :: "nat \<Rightarrow> nat \<Rightarrow> jsstr" where
  "pad k n = replicate (k - length (dec n)) 0x30 @ dec n"

definition iso_year :: "int \<Rightarrow> jsstr" where
  "iso_year y =
     (if 0 \<le> y \<and> y \<le> 9999 then pad 4 (nat y)
      else (if y < 0 then js ''-'' else js ''+'') @ pad 6 (nat \<bar>y\<bar>))"

text \<open>\<open>YYYY-MM-DDTHH:mm:ss.sssZ\<close>, with a sign and six digits for a year outside 0 to 9999.\<close>

definition iso_string :: "int \<Rightarrow> jsstr" where
  "iso_string t =
     (let d = Day t; ms = t mod msPerDay; y = YearFromDay d;
          (m, dt) = month_walk (month_lengths y) 0 (d - DayFromYear y)
      in iso_year y @ js ''-'' @ pad 2 (Suc m) @ js ''-'' @ pad 2 (nat (dt + 1)) @ js ''T'' @
         pad 2 (nat (ms div 3600000)) @ js '':'' @ pad 2 (nat (ms div 60000 mod 60)) @ js '':'' @
         pad 2 (nat (ms div 1000 mod 60)) @ js ''.'' @ pad 3 (nat (ms mod 1000)) @ js ''Z'')"

definition num :: "jsstr \<Rightarrow> nat option" where
  "num s =
     (if s \<noteq> [] \<and> (\<forall>c \<in> set s. 0x30 \<le> c \<and> c \<le> 0x39)
      then Some (foldl (\<lambda>a c. 10 * a + (unat c - 48)) 0 s) else None)"

text \<open>The time within the day: nothing, or \<open>THH:mm:ss.sssZ\<close>.\<close>

definition parse_time :: "jsstr \<Rightarrow> int option" where
  "parse_time s =
     (if s = [] then Some 0
      else if length s = 14 \<and> s ! 0 = 0x54 \<and> s ! 3 = 0x3A \<and> s ! 6 = 0x3A \<and> s ! 9 = 0x2E \<and> s ! 13 = 0x5A
      then (case (num (take 2 (drop 1 s)), num (take 2 (drop 4 s)),
                  num (take 2 (drop 7 s)), num (take 3 (drop 10 s))) of
              (Some h, Some mi, Some sec, Some ms) \<Rightarrow>
                if (h < 24 \<and> mi < 60 \<and> sec < 60) \<or> (h = 24 \<and> mi = 0 \<and> sec = 0 \<and> ms = 0)
                then Some (int h * 3600000 + int mi * 60000 + int sec * 1000 + int ms)
                else None
            | _ \<Rightarrow> None)
      else None)"

text \<open>After the year: \<open>-MM-DD\<close> and the time within the day.\<close>

definition parse_date :: "int \<Rightarrow> jsstr \<Rightarrow> date" where
  "parse_date y s =
     (if 6 \<le> length s \<and> s ! 0 = 0x2D \<and> s ! 3 = 0x2D
      then (case (num (take 2 (drop 1 s)), num (take 2 (drop 4 s)), parse_time (drop 6 s)) of
              (Some m, Some dt, Some ms) \<Rightarrow>
                if 1 \<le> m \<and> m \<le> 12 \<and> 1 \<le> dt \<and> int dt \<le> month_lengths y ! (m - 1)
                then TimeClip (MakeDay y (m - 1) (int dt) * msPerDay + ms)
                else Invalid
            | _ \<Rightarrow> Invalid)
      else Invalid)"

text \<open>
  \<open>Date.parse\<close> of this host reads the forms \<open>YYYY-MM-DD\<close> (what a date input yields,
  midnight UTC) and \<open>YYYY-MM-DDTHH:mm:ss.sssZ\<close> (what \<open>toISOString\<close> writes), each also
  with a signed six-digit year, and answers NaN for every other text. An engine reads
  more: the other forms of ECMAScript's format (a year alone, a year and a month, a
  time without seconds or milliseconds, a numeric offset) and texts of its own choice.
  The host is used only on the two forms it reads.
\<close>

definition parse_iso :: "jsstr \<Rightarrow> date" where
  "parse_iso s =
     (case s of
        [] \<Rightarrow> Invalid
      | c # r \<Rightarrow>
          if c = 0x2B \<or> c = 0x2D
          then (case num (take 6 r) of
                  Some y \<Rightarrow>
                    if length r < 6 \<or> (c = 0x2D \<and> y = 0) then Invalid
                    else parse_date (if c = 0x2D then - int y else int y) (drop 6 r)
                | None \<Rightarrow> Invalid)
          else (case num (take 4 s) of
                  Some y \<Rightarrow> if length s < 4 then Invalid else parse_date (int y) (drop 4 s)
                | None \<Rightarrow> Invalid))"

text \<open>
  The text of a whole number below \<open>10\<^sup>2\<^sup>1\<close> is its decimal numeral, and on these
  numbers the host is as an engine. It writes every other finite number from its whole
  part, with no fraction and no exponent, where an engine writes both (it writes
  \<open>1.5\<close> as \<open>1\<close>). The text of a number is asked for only by \<open>new Date\<close> of an
  array, and the host is not used there on such a number.
\<close>

definition number_text :: "number \<Rightarrow> jsstr" where
  "number_text n =
     (case n of
        Fin r \<Rightarrow> (if r < 0 then js ''-'' else []) @ dec (nat \<lfloor>\<bar>r\<bar>\<rfloor>)
      | PosInf \<Rightarrow> js ''Infinity''
      | NegInf \<Rightarrow> js ''-Infinity'')"

definition host :: "int \<Rightarrow> platform" where
  "host off = \<lparr> LocalTZA_utc = (\<lambda>t. off), LocalTZA_local = (\<lambda>t. off),
                Date_parse = parse_iso, toISOString = iso_string,
                Number_toString = number_text \<rparr>"

section \<open>Example runs\<close>

text \<open>Two tasks added at different readings of the clock.\<close>

definition two_tasks :: "Todo list" where
  "two_tasks = todos (adds (host 0) [(js ''A'', [], 1, 1), (js ''B'', [], 2, 2)] initial)"

text \<open>Three tasks, the last two added at one reading of the clock.\<close>

definition same_ms :: "Todo list" where
  "same_ms = todos (adds (host 0)
     [(js ''A'', [], 5, 5), (js ''B'', [], 7, 7), (js ''A'', [], 7, 7)] initial)"

text \<open>One task added with a due date.\<close>

definition due_tasks :: "Todo list" where
  "due_tasks = todos (add (host 0) (js ''A'') (js ''2024-05-10'') 1715000000000 1715000000000 initial)"

section \<open>Properties\<close>

subsection \<open>Trimming and adding\<close>

lemma dropWhile_all_iff:
  "(\<forall>x \<in> set (dropWhile p xs). p x) \<longleftrightarrow> (\<forall>x \<in> set xs. p x)"
proof
  assume a: "\<forall>x \<in> set (dropWhile p xs). p x"
  have "dropWhile p xs = []"
  proof (rule ccontr)
    assume ne: "dropWhile p xs \<noteq> []"
    then have "\<not> p (hd (dropWhile p xs))" by (rule hd_dropWhile)
    moreover from ne have "hd (dropWhile p xs) \<in> set (dropWhile p xs)" by (rule hd_in_set)
    ultimately show False using a by blast
  qed
  then show "\<forall>x \<in> set xs. p x" by (simp add: dropWhile_eq_Nil_conv)
next
  assume "\<forall>x \<in> set xs. p x"
  then show "\<forall>x \<in> set (dropWhile p xs). p x"
    by (blast dest: set_dropWhileD)
qed

lemma trim_empty_iff: "trim s = [] \<longleftrightarrow> (\<forall>c \<in> set s. is_white c)"
  by (simp add: trim_def dropWhile_eq_Nil_conv dropWhile_all_iff)

lemma todos_add:
  "todos (add P ttl sel n1 n2 st) =
     (if trim ttl \<noteq> [] then newTodo P n1 n2 ttl sel # todos st else todos st)"
  by (simp add: add_def addTodo_def)

lemma js_two_spaces_white: "\<forall>c \<in> set (js ''  ''). is_white c"
  by (simp add: js_def is_white_def)

lemma trim_A: "trim (js ''A'') = js ''A''"
  by (simp add: trim_def js_def is_white_def)

lemma trim_B: "trim (js ''B'') = js ''B''"
  by (simp add: trim_def js_def is_white_def)

lemma js_A_not_B: "js ''A'' \<noteq> js ''B''"
  by (simp add: js_def)

lemma js_Nil_iff [simp]: "js s = [] \<longleftrightarrow> s = []"
  by (simp add: js_def)

lemma trim_Nil [simp]: "trim [] = []"
  by (simp add: trim_def)

text \<open>
  C6. A title that is empty or all white space trims to the empty text, and \<open>addTodo\<close>
  then returns the state it was given: the collection and both input fields are as
  before. There is no error outcome.
\<close>

theorem addTodo_blank_title:
  assumes "\<forall>c \<in> set ttl. is_white c"
  shows "trim ttl = []
    \<and> addTodo P now_id now_created (st \<lparr> inputValue := ttl, selectedDate := sel \<rparr>)
        = st \<lparr> inputValue := ttl, selectedDate := sel \<rparr>
    \<and> todos (add P ttl sel now_id now_created st) = todos st"
proof -
  from assms have "trim ttl = []" by (simp add: trim_empty_iff)
  then show ?thesis by (simp add: add_def addTodo_def)
qed

theorem addTodo_blank_title_witness:
  "trim (js ''  '') = []
   \<and> length (todos (add (host 0) (js ''  '') [] 1715400000000 1715400000000 initial)) = 0
   \<and> add (host 0) (js ''  '') (js ''2024-05-10'') 1715400000000 1715400000000 initial
       = initial \<lparr> inputValue := js ''  '', selectedDate := js ''2024-05-10'' \<rparr>"
  using addTodo_blank_title [OF js_two_spaces_white,
      where P = "host 0" and now_id = 1715400000000 and now_created = 1715400000000
        and st = initial and sel = "[]"]
    addTodo_blank_title [OF js_two_spaces_white,
      where P = "host 0" and now_id = 1715400000000 and now_created = 1715400000000
        and st = initial and sel = "js ''2024-05-10''"]
  by (simp add: initial_def add_def)

text \<open>
  C8. Each \<open>add\<close> with a title that does not trim to nothing puts its new task in front
  of the collection and leaves the rest as it was, so after a run of such calls the
  collection is the tasks made, the latest first, followed by the tasks there were.
\<close>

theorem adds_newest_first:
  assumes "\<forall>c \<in> set cs. trim (fst c) \<noteq> []"
  shows "todos (adds P cs st)
    = rev (map (\<lambda>(ttl, sel, n1, n2). newTodo P n1 n2 ttl sel) cs) @ todos st"
  using assms
proof (induction cs arbitrary: st)
  case Nil
  show ?case by simp
next
  case (Cons c cs)
  obtain ttl sel n1 n2 where c: "c = (ttl, sel, n1, n2)"
    by (cases c) auto
  from Cons.prems have "trim ttl \<noteq> []" and "\<forall>c \<in> set cs. trim (fst c) \<noteq> []"
    by (simp_all add: c)
  then show ?case
    using Cons.IH [of "add P ttl sel n1 n2 st"] by (simp add: c todos_add)
qed

theorem adds_newest_first_witness:
  "map title (todos (adds (host 0) [(js ''A'', [], 1, 1), (js ''B'', [], 2, 2)] initial))
     = [js ''B'', js ''A'']"
proof -
  have "\<forall>c \<in> set [(js ''A'', [], 1, 1), (js ''B'', [], 2::int, 2::int)]. trim (fst c) \<noteq> []"
    by (simp add: trim_A trim_B)
  from adds_newest_first [OF this, of "host 0" initial] show ?thesis
    by (simp add: newTodo_def trim_A trim_B initial_def)
qed

subsection \<open>Toggling, deleting and clearing\<close>

text \<open>
  C7. For an id that no task of the collection has, \<open>deleteTodo\<close> and \<open>toggleTodo\<close>
  return the collection they were given. Neither has an error outcome.
\<close>

theorem absent_id_unchanged:
  assumes "i \<notin> tid ` set ts"
  shows "deleteTodo i ts = ts \<and> toggleTodo i ts = ts"
  using assms by (induction ts) (auto simp: deleteTodo_def toggleTodo_def)

lemma two_tasks_eq:
  "two_tasks =
     [\<lparr> tid = 2, title = js ''B'', completed = False, createdAt = Time 2, dueDate = None \<rparr>,
      \<lparr> tid = 1, title = js ''A'', completed = False, createdAt = Time 1, dueDate = None \<rparr>]"
  by (simp add: two_tasks_def todos_add newTodo_def trim_A trim_B initial_def js_A_not_B)

theorem absent_id_unchanged_witness:
  "3 \<notin> tid ` set two_tasks \<and> deleteTodo 3 two_tasks = two_tasks \<and> toggleTodo 3 two_tasks = two_tasks"
proof -
  have h: "3 \<notin> tid ` set two_tasks" by (simp add: two_tasks_eq)
  from absent_id_unchanged [OF h] h show ?thesis by simp
qed

text \<open>
  C9. What \<open>clearCompleted\<close> returns holds no completed task, is the given collection
  with some tasks left out and the order kept, and holds every task that is not
  completed as often as the given collection does.
\<close>

theorem clearCompleted_exact:
  "(\<forall>t \<in> set (clearCompleted ts). \<not> completed t)
   \<and> subseq (clearCompleted ts) ts
   \<and> (\<forall>t. \<not> completed t \<longrightarrow> count_list (clearCompleted ts) t = count_list ts t)"
  by (induction ts) (auto simp: clearCompleted_def)

theorem clearCompleted_exact_witness:
  "toggleTodo 1 two_tasks =
     [\<lparr> tid = 2, title = js ''B'', completed = False, createdAt = Time 2, dueDate = None \<rparr>,
      \<lparr> tid = 1, title = js ''A'', completed = True, createdAt = Time 1, dueDate = None \<rparr>]
   \<and> clearCompleted (toggleTodo 1 two_tasks) =
     [\<lparr> tid = 2, title = js ''B'', completed = False, createdAt = Time 2, dueDate = None \<rparr>]
   \<and> subseq (clearCompleted (toggleTodo 1 two_tasks)) (toggleTodo 1 two_tasks)"
  using clearCompleted_exact [of "toggleTodo 1 two_tasks"]
  by (simp add: two_tasks_eq toggleTodo_def clearCompleted_def)

text \<open>
  C10. What \<open>deleteTodo\<close> returns holds no task with the given id, however many there
  were, is the given collection with some tasks left out and the order kept, and holds
  every task with another id as often as the given collection does.
\<close>

theorem deleteTodo_removes_all:
  "(\<forall>t \<in> set (deleteTodo i ts). tid t \<noteq> i)
   \<and> subseq (deleteTodo i ts) ts
   \<and> (\<forall>t. tid t \<noteq> i \<longrightarrow> count_list (deleteTodo i ts) t = count_list ts t)"
  by (induction ts) (auto simp: deleteTodo_def)

lemma same_ms_eq:
  "same_ms =
     [\<lparr> tid = 7, title = js ''A'', completed = False, createdAt = Time 7, dueDate = None \<rparr>,
      \<lparr> tid = 7, title = js ''B'', completed = False, createdAt = Time 7, dueDate = None \<rparr>,
      \<lparr> tid = 5, title = js ''A'', completed = False, createdAt = Time 5, dueDate = None \<rparr>]"
  by (simp add: same_ms_def todos_add newTodo_def trim_A trim_B initial_def js_A_not_B)

theorem deleteTodo_removes_all_witness:
  "length (filter (\<lambda>t. tid t = 7) same_ms) = 2
   \<and> deleteTodo 7 same_ms =
       [\<lparr> tid = 5, title = js ''A'', completed = False, createdAt = Time 5, dueDate = None \<rparr>]
   \<and> subseq (deleteTodo 7 same_ms) same_ms"
  using deleteTodo_removes_all [of 7 same_ms]
  by (simp add: same_ms_eq deleteTodo_def)

subsection \<open>Due dates\<close>

lemma month_walk_sum:
  "month_walk ls m n = (m', r) \<Longrightarrow> m \<le> m' \<and> n = sum_list (take (m' - m) ls) + r"
proof (induction ls arbitrary: m n)
  case Nil
  then show ?case by simp
next
  case (Cons l ls)
  show ?case
  proof (cases "n < l")
    case True
    with Cons.prems show ?thesis by simp
  next
    case False
    with Cons.prems have "month_walk ls (Suc m) (n - l) = (m', r)" by simp
    from Cons.IH [OF this] have le: "Suc m \<le> m'" and n: "n - l = sum_list (take (m' - Suc m) ls) + r"
      by simp_all
    from le have "m' - m = Suc (m' - Suc m)" by simp
    with n le show ?thesis by simp
  qed
qed

lemma toDateString_day:
  assumes "toDateString P (Time s) = toDateString P (Time t)"
  shows "Day (LocalTime P s) = Day (LocalTime P t)"
proof -
  let ?a = "Day (LocalTime P s)" and ?b = "Day (LocalTime P t)"
  obtain m r where a: "month_walk (month_lengths (YearFromDay ?a)) 0 (?a - DayFromYear (YearFromDay ?a)) = (m, r)"
    by (cases "month_walk (month_lengths (YearFromDay ?a)) 0 (?a - DayFromYear (YearFromDay ?a))") auto
  obtain m' r' where b: "month_walk (month_lengths (YearFromDay ?b)) 0 (?b - DayFromYear (YearFromDay ?b)) = (m', r')"
    by (cases "month_walk (month_lengths (YearFromDay ?b)) 0 (?b - DayFromYear (YearFromDay ?b))") auto
  from assms a b have y: "YearFromDay ?a = YearFromDay ?b" and m: "m = m'" and r: "r = r'"
    by (simp_all add: toDateString_def Let_def)
  from month_walk_sum [OF a] have "?a - DayFromYear (YearFromDay ?a) = sum_list (take m (month_lengths (YearFromDay ?a))) + r"
    by simp
  moreover from month_walk_sum [OF b] have "?b - DayFromYear (YearFromDay ?b) = sum_list (take m' (month_lengths (YearFromDay ?b))) + r'"
    by simp
  ultimately show ?thesis using y m r by simp
qed

lemma same_text_same_midnight:
  assumes "toDateString P (Time s) = toDateString P (Time t)"
  shows "setHours0 P (Time s) = setHours0 P (Time t)"
  using toDateString_day [OF assms] by (simp add: setHours0_def)

lemma toDateString_Invalid: "toDateString P Invalid \<noteq> toDateString P (Time t)"
  by (simp add: toDateString_def Let_def split: prod.splits)

lemma date_lt_irrefl: "\<not> date_lt d d"
  by (cases d) (simp_all add: date_lt_def)

text \<open>
  C5. For one reading of the clock and any due date, valid or not, \<open>isOverdue\<close> and
  \<open>isDueToday\<close> do not both answer true: equal date texts mean the same local day, and
  \<open>setHours\<close> then takes both dates to the same instant.
\<close>

theorem overdue_today_exclusive:
  "\<not> (fst (isOverdue P now (Some d)) \<and> isDueToday P now (Some d))"
proof (cases d)
  case Invalid
  then show ?thesis by (simp add: isDueToday_def toDateString_Invalid)
next
  case (Time s)
  show ?thesis
  proof
    assume both: "fst (isOverdue P now (Some d)) \<and> isDueToday P now (Some d)"
    then have "toDateString P (Time s) = toDateString P (Time now)"
      by (simp add: isDueToday_def Time)
    then have "setHours0 P (Time s) = setHours0 P (Time now)"
      by (rule same_text_same_midnight)
    with both show False
      by (simp add: isOverdue_def Let_def Time date_lt_irrefl)
  qed
qed

theorem overdue_today_exclusive_witness:
  "fst (isOverdue (host 0) 1715400000000 (Some (Time 1715299200000)))
   \<and> \<not> isDueToday (host 0) 1715400000000 (Some (Time 1715299200000))
   \<and> isDueToday (host 0) 1715400000000 (Some (Time 1715385600000))
   \<and> \<not> fst (isOverdue (host 0) 1715400000000 (Some (Time 1715385600000)))"
proof -
  have 1: "fst (isOverdue (host 0) 1715400000000 (Some (Time 1715299200000)))"
    by (simp add: isOverdue_def Let_def setHours0_def host_def LocalTime_def UTC_def Day_def
        msPerDay_def TimeClip_def date_lt_def)
  have 2: "isDueToday (host 0) 1715400000000 (Some (Time 1715385600000))"
    by code_simp
  from 1 2 overdue_today_exclusive [of "host 0" 1715400000000 "Time 1715299200000"]
    overdue_today_exclusive [of "host 0" 1715400000000 "Time 1715385600000"]
  show ?thesis by blast
qed


text \<open>
  A render calls \<open>isOverdue\<close> before \<open>isDueToday\<close>, which then sees the date as
  \<open>isOverdue\<close> left it. In a zone with a fixed offset the two still do not both answer
  true.
\<close>

lemma setHours0_host_day:
  assumes "setHours0 (host off) (Time s) = Time u"
  shows "Day (LocalTime (host off) u) = Day (LocalTime (host off) s)"
proof -
  from assms have "u = Day (s + off) * msPerDay - off"
    by (simp add: setHours0_def host_def LocalTime_def UTC_def TimeClip_def split: if_splits)
  then show ?thesis
    by (simp add: host_def LocalTime_def Day_def msPerDay_def)
qed

lemma isDueToday_after_isOverdue:
  assumes "isOverdue (host off) now (Some d) = (b, Some d')"
  shows "\<not> (b \<and> isDueToday (host off) now (Some d'))"
proof (cases d')
  case Invalid
  then show ?thesis by (simp add: isDueToday_def toDateString_Invalid)
next
  case (Time u)
  from assms have d': "d' = setHours0 (host off) d"
    and b: "b = date_lt (setHours0 (host off) d) (setHours0 (host off) (Time now))"
    by (auto simp: isOverdue_def Let_def)
  from d' Time obtain s where s: "d = Time s"
    by (cases d) (simp_all add: setHours0_def)
  with d' Time have "setHours0 (host off) (Time s) = Time u" by simp
  then have "Day (LocalTime (host off) u) = Day (LocalTime (host off) s)"
    by (rule setHours0_host_day)
  then have same: "toDateString (host off) d' = toDateString (host off) d"
    by (simp add: toDateString_def Time s)
  show ?thesis
  proof
    assume both: "b \<and> isDueToday (host off) now (Some d')"
    with same s have "toDateString (host off) (Time s) = toDateString (host off) (Time now)"
      by (simp add: isDueToday_def)
    then have "setHours0 (host off) (Time s) = setHours0 (host off) (Time now)"
      by (rule same_text_same_midnight)
    with both b s show False by (simp add: date_lt_irrefl)
  qed
qed

subsection \<open>Ids\<close>

lemma todos_initial [simp]: "todos initial = []"
  by (simp add: initial_def)

lemma tids_add:
  "tid ` set (todos (add P ttl sel n1 n2 st)) \<subseteq> insert n1 (tid ` set (todos st))"
  by (auto simp: todos_add newTodo_def)

text \<open>
  C2, as the code has it. The id of a task is the reading of \<open>Date.now()\<close> at its
  creation. When the readings of a run of \<open>add\<close> calls are pairwise distinct and none
  is an id already in the collection, whose ids are pairwise distinct, the ids after the
  run are pairwise distinct.
\<close>

theorem ids_distinct_for_distinct_readings:
  assumes "distinct (map reading cs)"
    and "distinct (map tid (todos st))"
    and "\<forall>c \<in> set cs. reading c \<notin> tid ` set (todos st)"
  shows "distinct (map tid (todos (adds P cs st)))"
  using assms
proof (induction cs arbitrary: st)
  case Nil
  then show ?case by simp
next
  case (Cons c cs)
  obtain ttl sel n1 n2 where c: "c = (ttl, sel, n1, n2)"
    by (cases c) auto
  let ?st = "add P ttl sel n1 n2 st"
  have d: "distinct (map tid (todos ?st))"
    using Cons.prems by (auto simp: todos_add newTodo_def c reading_def)
  have "\<forall>c \<in> set cs. reading c \<notin> tid ` set (todos ?st)"
  proof
    fix c' assume "c' \<in> set cs"
    with Cons.prems have "reading c' \<noteq> n1" and "reading c' \<notin> tid ` set (todos st)"
      by (auto simp: c reading_def)
    with tids_add [of P ttl sel n1 n2 st] show "reading c' \<notin> tid ` set (todos ?st)"
      by blast
  qed
  with Cons.IH [of ?st] d Cons.prems show ?case
    by (simp add: c)
qed

theorem ids_distinct_for_distinct_readings_witness:
  "map tid (todos (adds (host 0) [(js ''A'', [], 1, 1), (js ''B'', [], 2, 2)] initial)) = [2, 1]
   \<and> distinct (map tid (todos (adds (host 0) [(js ''A'', [], 1, 1), (js ''B'', [], 2, 2)] initial)))"
proof -
  have "distinct (map reading [(js ''A'', [], 1, 1), (js ''B'', [], 2::int, 2::int)])"
    by (simp add: reading_def)
  moreover have "distinct (map tid (todos initial))"
    by (simp add: initial_def)
  moreover have "\<forall>c \<in> set [(js ''A'', [], 1, 1), (js ''B'', [], 2::int, 2::int)].
      reading c \<notin> tid ` set (todos initial)"
    by (simp add: initial_def)
  ultimately have "distinct (map tid (todos (adds (host 0) [(js ''A'', [], 1, 1), (js ''B'', [], 2, 2)] initial)))"
    by (rule ids_distinct_for_distinct_readings)
  then show ?thesis
    by (simp add: todos_add newTodo_def trim_A trim_B)
qed

text \<open>
  Two \<open>add\<close> calls with titles \<open>A\<close> and \<open>B\<close> at one reading of \<open>Date.now()\<close> make two
  tasks with one id.
\<close>

theorem same_reading_same_id:
  "trim (js ''A'') \<noteq> [] \<and> trim (js ''B'') \<noteq> []
   \<and> map tid (todos (adds (host 0) [(js ''A'', [], 7, 7), (js ''B'', [], 7, 7)] initial)) = [7, 7]
   \<and> \<not> distinct (map tid (todos (adds (host 0) [(js ''A'', [], 7, 7), (js ''B'', [], 7, 7)] initial)))"
  by (simp add: todos_add newTodo_def trim_A trim_B)

subsection \<open>What the operations leave alone\<close>

lemma toggleTodo_frame:
  "map (\<lambda>t. (tid t, title t, createdAt t, dueDate t)) (toggleTodo i ts)
     = map (\<lambda>t. (tid t, title t, createdAt t, dueDate t)) ts"
  by (induction ts) (simp_all add: toggleTodo_def)

lemma toggleTodo_completed:
  "map completed (toggleTodo i ts) = map (\<lambda>t. if tid t = i then \<not> completed t else completed t) ts"
  by (induction ts) (simp_all add: toggleTodo_def)

lemma deleteTodo_frame: "subseq (deleteTodo i ts) ts"
  by (simp add: deleteTodo_def)

lemma clearCompleted_frame: "subseq (clearCompleted ts) ts"
  by (simp add: clearCompleted_def)

lemma addTodo_frame: "suffix (todos st) (todos (addTodo P n1 n2 st))"
  by (simp add: addTodo_def suffix_Cons)

lemma isOverdue_no_date: "isOverdue P now None = (False, None)"
  by (simp add: isOverdue_def)

text \<open>
  C3 at a failing input. In a zone four hours behind UTC a task is added with the date
  text \<open>2024-05-10\<close>; its \<open>dueDate\<close> is midnight UTC of that day. A call of \<open>isOverdue\<close>
  on 6 May answers false and leaves the task's \<open>dueDate\<close> twenty hours earlier, at the
  local midnight of 9 May.
\<close>

theorem isOverdue_moves_dueDate:
  "map dueDate (todos (add (host (- 14400000)) (js ''A'') (js ''2024-05-10'') 1715000000000 1715000000000 initial))
     = [Some (Time 1715299200000)]
   \<and> isOverdue (host (- 14400000)) 1715000000000 (Some (Time 1715299200000))
     = (False, Some (Time 1715227200000))"
proof -
  have "parse_iso (js ''2024-05-10'') = Time 1715299200000"
    by code_simp
  then have "map dueDate (todos (add (host (- 14400000)) (js ''A'') (js ''2024-05-10'') 1715000000000 1715000000000 initial))
     = [Some (Time 1715299200000)]"
    by (simp add: todos_add newTodo_def trim_A initial_def host_def)
  moreover have "isOverdue (host (- 14400000)) 1715000000000 (Some (Time 1715299200000))
     = (False, Some (Time 1715227200000))"
    by (simp add: isOverdue_def Let_def setHours0_def host_def LocalTime_def UTC_def Day_def
        msPerDay_def TimeClip_def date_lt_def)
  ultimately show ?thesis by simp
qed


subsection \<open>The reference host reads back its ISO texts\<close>

text \<open>
  On the reference host \<open>Date.parse\<close> of the \<open>toISOString\<close> of a time value is that time
  value, for every time value a \<open>Date\<close> can hold. The proof follows the text: the
  digits of each field, the time within the day, the year found by \<open>YearFromDay\<close>, the
  month and the day within the year.
\<close>

lemma unat_dg: "a < 10 \<Longrightarrow> unat (dg a) = 48 + a"
  unfolding dg_def by (subst unat_of_nat) simp

lemma dg_digit: "a < 10 \<Longrightarrow> 0x30 \<le> dg a \<and> dg a \<le> 0x39"
  by (simp add: word_le_nat_alt unat_dg)

lemma dg_no_sign: 
  assumes "a < 10" 
  shows "dg a \<noteq> 0x2B" and "dg a \<noteq> 0x2D"
proof -
  from assms have u: "unat (dg a) = 48 + a" by (rule unat_dg)
  show "dg a \<noteq> 0x2B"
  proof
    assume "dg a = 0x2B"
    then have "unat (dg a) = 43" by simp
    with u show False by simp
  qed
  show "dg a \<noteq> 0x2D"
  proof
    assume "dg a = 0x2D"
    then have "unat (dg a) = 45" by simp
    with u show False by simp
  qed
qed

lemma dec_small: "n < 10 \<Longrightarrow> dec n = [dg n]"
  by (simp add: dec.simps)

lemma dec_big: "10 \<le> n \<Longrightarrow> dec n = dec (n div 10) @ [dg (n mod 10)]"
  by (subst dec.simps) simp

lemma pad_Suc: "1 \<le> k \<Longrightarrow> pad (Suc k) n = pad k (n div 10) @ [dg (n mod 10)]"
proof (cases "n < 10")
  case True
  assume "1 \<le> k"
  then have "replicate k (0x30 :: 16 word) = replicate (k - 1) 0x30 @ [0x30]"
    by (cases k) (simp_all add: replicate_append_same)
  with True show ?thesis
    by (simp add: pad_def dec_small dg_def)
next
  case False
  then show ?thesis
    by (simp add: pad_def dec_big Suc_diff_le)
qed

lemma pad1: "n < 10 \<Longrightarrow> pad (Suc 0) n = [dg n]"
  by (simp add: pad_def dec_small)

lemma div_div_nat: "(n::nat) div a div b = n div (a * b)"
  by (simp only: div_mult2_eq)

lemma pad_step: "2 \<le> k \<Longrightarrow> pad k n = pad (k - 1) (n div 10) @ [dg (n mod 10)]"
  using pad_Suc [of "k - 1" n] by simp

lemma pad2: "n < 100 \<Longrightarrow> pad 2 n = [dg (n div 10), dg (n mod 10)]"
proof -
  assume "n < 100"
  then have "n div 10 < 10" by simp
  then have "pad (Suc 0) (n div 10) = [dg (n div 10)]" by (rule pad1)
  with pad_step [of 2 n] show ?thesis by simp
qed

lemma pad3: "n < 1000 \<Longrightarrow> pad 3 n = [dg (n div 100), dg (n div 10 mod 10), dg (n mod 10)]"
proof -
  assume "n < 1000"
  then have "n div 10 < 100" by simp
  from pad2 [OF this] pad_step [of 3 n]
  have "pad 3 n = [dg (n div 10 div 10), dg (n div 10 mod 10), dg (n mod 10)]"
    by simp
  moreover have "n div 10 div 10 = n div 100"
    using div_div_nat [of n 10 10] by simp
  ultimately show ?thesis by simp
qed

lemma pad4:
  "n < 10000 \<Longrightarrow> pad 4 n = [dg (n div 1000), dg (n div 100 mod 10), dg (n div 10 mod 10), dg (n mod 10)]"
proof -
  assume "n < 10000"
  then have "n div 10 < 1000" by simp
  from pad3 [OF this] pad_step [of 4 n]
  have "pad 4 n = [dg (n div 10 div 100), dg (n div 10 div 10 mod 10), dg (n div 10 mod 10), dg (n mod 10)]"
    by simp
  moreover have "n div 10 div 100 = n div 1000" and "n div 10 div 10 = n div 100"
    using div_div_nat [of n 10 100] div_div_nat [of n 10 10] by simp_all
  ultimately show ?thesis by simp
qed

lemma pad6:
  "n < 1000000 \<Longrightarrow> pad 6 n = [dg (n div 100000), dg (n div 10000 mod 10), dg (n div 1000 mod 10),
     dg (n div 100 mod 10), dg (n div 10 mod 10), dg (n mod 10)]"
proof -
  assume n: "n < 1000000"
  then have "n div 100 < 10000" by simp
  from pad4 [OF this]
  have 4: "pad 4 (n div 100) = [dg (n div 100 div 1000), dg (n div 100 div 100 mod 10),
      dg (n div 100 div 10 mod 10), dg (n div 100 mod 10)]" .
  have d: "n div 100 div 1000 = n div 100000" "n div 100 div 100 = n div 10000"
    "n div 100 div 10 = n div 1000" "n div 10 div 10 = n div 100"
    using div_div_nat [of n 100 1000] div_div_nat [of n 100 100] div_div_nat [of n 100 10]
      div_div_nat [of n 10 10] by simp_all
  from pad_step [of 5 "n div 10"] have "pad 5 (n div 10) = pad 4 (n div 100) @ [dg (n div 10 mod 10)]"
    by (simp add: d)
  with pad_step [of 6 n] have "pad 6 n = pad 4 (n div 100) @ [dg (n div 10 mod 10), dg (n mod 10)]"
    by simp
  with 4 d show ?thesis by simp
qed

lemma num_digits:
  assumes "\<forall>d \<in> set ds. d < 10" and "ds \<noteq> []"
  shows "num (map dg ds) = Some (foldl (\<lambda>a d. 10 * a + d) 0 ds)"
proof -
  have 1: "\<forall>c \<in> set (map dg ds). 0x30 \<le> c \<and> c \<le> 0x39"
    using assms(1) by (auto dest: dg_digit)
  have 2: "foldl (\<lambda>a c. 10 * a + (unat c - 48)) a0 (map dg ds) = foldl (\<lambda>a d. 10 * a + d) a0 ds"
    if "\<forall>d \<in> set ds. d < 10" for a0
    using that by (induction ds arbitrary: a0) (simp_all add: unat_dg)
  from assms(2) have "map dg ds \<noteq> []" by simp
  with 1 have "num (map dg ds) = Some (foldl (\<lambda>a c. 10 * a + (unat c - 48)) 0 (map dg ds))"
    unfolding num_def by (rule_tac if_P) blast
  with 2 [OF assms(1)] show ?thesis by (simp only:)
qed

lemma num2: "a < 10 \<Longrightarrow> b < 10 \<Longrightarrow> num [dg a, dg b] = Some (10 * a + b)"
  using num_digits [of "[a, b]"] by simp

lemma num3: "a < 10 \<Longrightarrow> b < 10 \<Longrightarrow> c < 10 \<Longrightarrow> num [dg a, dg b, dg c] = Some (100 * a + 10 * b + c)"
  using num_digits [of "[a, b, c]"] by simp

lemma num4:
  "a < 10 \<Longrightarrow> b < 10 \<Longrightarrow> c < 10 \<Longrightarrow> d < 10 \<Longrightarrow>
   num [dg a, dg b, dg c, dg d] = Some (1000 * a + 100 * b + 10 * c + d)"
  using num_digits [of "[a, b, c, d]"] by simp

lemma num6:
  "a < 10 \<Longrightarrow> b < 10 \<Longrightarrow> c < 10 \<Longrightarrow> d < 10 \<Longrightarrow> e < 10 \<Longrightarrow> f < 10 \<Longrightarrow>
   num [dg a, dg b, dg c, dg d, dg e, dg f]
     = Some (100000 * a + 10000 * b + 1000 * c + 100 * d + 10 * e + f)"
  using num_digits [of "[a, b, c, d, e, f]"] by simp

lemma js_chars:
  "js ''T'' = [0x54]" "js '':'' = [0x3A]" "js ''.'' = [0x2E]" "js ''Z'' = [0x5A]"
  "js ''-'' = [0x2D]" "js ''+'' = [0x2B]"
  by (simp_all add: js_def)

lemma two_digits: "n < 100 \<Longrightarrow> n div 10 < 10 \<and> n mod 10 < 10 \<and> 10 * (n div 10) + n mod 10 = n"
  for n :: nat
  by simp

lemma three_digits:
  "n < 1000 \<Longrightarrow> n div 100 < 10 \<and> n div 10 mod 10 < 10 \<and> n mod 10 < 10
     \<and> 100 * (n div 100) + 10 * (n div 10 mod 10) + n mod 10 = n"
  for n :: nat
proof -
  assume "n < 1000"
  define q r a b where "q = n div 10" and "r = n mod 10" and "a = n div 100" and "b = n div 10 mod 10"
  have "n = 10 * q + r"
    by (simp add: q_def r_def)
  moreover have "q = 10 * a + b"
    using div_div_nat [of n 10 10] div_mult_mod_eq [of "n div 10" 10]
    by (simp add: q_def a_def b_def)
  ultimately have "100 * a + 10 * b + r = n"
    by simp
  moreover from \<open>n < 1000\<close> have "a < 10" by (simp add: a_def)
  moreover have "b < 10" and "r < 10" by (simp_all add: b_def r_def)
  ultimately show ?thesis
    by (simp add: a_def b_def r_def)
qed

lemma parse_time_digits:
  assumes "h < 24" and "mi < 60" and "s < 60" and "f < 1000"
  shows "parse_time (js ''T'' @ pad 2 h @ js '':'' @ pad 2 mi @ js '':'' @ pad 2 s @ js ''.'' @ pad 3 f @ js ''Z'')
    = Some (int h * 3600000 + int mi * 60000 + int s * 1000 + int f)"
proof -
  from assms have b: "h < 100" "mi < 100" "s < 100" by simp_all
  note h = two_digits [OF b(1)] and mi = two_digits [OF b(2)] and s = two_digits [OF b(3)]
    and f = three_digits [OF assms(4)]
  have str: "js ''T'' @ pad 2 h @ js '':'' @ pad 2 mi @ js '':'' @ pad 2 s @ js ''.'' @ pad 3 f @ js ''Z''
    = [0x54, dg (h div 10), dg (h mod 10), 0x3A, dg (mi div 10), dg (mi mod 10), 0x3A,
       dg (s div 10), dg (s mod 10), 0x2E, dg (f div 100), dg (f div 10 mod 10), dg (f mod 10), 0x5A]"
    by (simp add: js_chars pad2 [OF b(1)] pad2 [OF b(2)] pad2 [OF b(3)] pad3 [OF assms(4)])
  have n: "num [dg (h div 10), dg (h mod 10)] = Some h"
    "num [dg (mi div 10), dg (mi mod 10)] = Some mi"
    "num [dg (s div 10), dg (s mod 10)] = Some s"
    "num [dg (f div 100), dg (f div 10 mod 10), dg (f mod 10)] = Some f"
    using h mi s f by (simp_all add: num2 num3)
  show ?thesis
    unfolding str parse_time_def using assms n by simp
qed

lemma time_of_day:
  fixes ms :: int
  assumes "0 \<le> ms" and "ms < 86400000"
  shows "nat (ms div 3600000) < 24" and "nat (ms div 60000 mod 60) < 60"
    and "nat (ms div 1000 mod 60) < 60" and "nat (ms mod 1000) < 1000"
    and "int (nat (ms div 3600000)) * 3600000 + int (nat (ms div 60000 mod 60)) * 60000
          + int (nat (ms div 1000 mod 60)) * 1000 + int (nat (ms mod 1000)) = ms"
proof -
  define a f b s h mi where "a = ms div 1000" and "f = ms mod 1000" and "b = ms div 60000"
    and "s = ms div 1000 mod 60" and "h = ms div 3600000" and "mi = ms div 60000 mod 60"
  have 1: "ms = 1000 * a + f"
    by (simp add: a_def f_def)
  have "ms div (1000 * 60) = ms div 1000 div 60"
    by (rule zdiv_zmult2_eq) simp
  then have 2: "a = 60 * b + s"
    using div_mult_mod_eq [of a 60] by (simp add: a_def b_def s_def)
  have "ms div (60000 * 60) = ms div 60000 div 60"
    by (rule zdiv_zmult2_eq) simp
  then have 3: "b = 60 * h + mi"
    using div_mult_mod_eq [of b 60] by (simp add: b_def h_def mi_def)
  have nonneg: "0 \<le> f" "0 \<le> s" "0 \<le> mi" "0 \<le> h"
    using assms(1) by (simp_all add: f_def s_def mi_def h_def)
  have bounds: "f < 1000" "s < 60" "mi < 60"
    by (simp_all add: f_def s_def mi_def)
  from assms(2) have "h < 24"
    by (simp add: h_def)
  with nonneg bounds 1 2 3
  show "nat (ms div 3600000) < 24" and "nat (ms div 60000 mod 60) < 60"
    and "nat (ms div 1000 mod 60) < 60" and "nat (ms mod 1000) < 1000"
    and "int (nat (ms div 3600000)) * 3600000 + int (nat (ms div 60000 mod 60)) * 60000
          + int (nat (ms div 1000 mod 60)) * 1000 + int (nat (ms mod 1000)) = ms"
    unfolding f_def [symmetric] s_def [symmetric] mi_def [symmetric] h_def [symmetric]
    by simp_all
qed

lemma div_succ:
  fixes a k :: int
  assumes "0 < k"
  shows "(a + 1) div k = a div k + (if (a + 1) mod k = 0 then 1 else 0)"
proof -
  define q r where "q = a div k" and "r = a mod k"
  have a: "a = k * q + r" and r: "0 \<le> r" "r < k"
    using assms by (simp_all add: q_def r_def)
  show ?thesis
  proof (cases "r + 1 = k")
    case True
    with a have eq: "a + 1 = k * (q + 1) + 0"
      by (simp add: algebra_simps)
    from assms have "(a + 1) div k = q + 1" and "(a + 1) mod k = 0"
      using int_div_pos_eq [OF eq] int_mod_pos_eq [OF eq] by simp_all
    then show ?thesis by (simp add: q_def)
  next
    case False
    with r have lt: "r + 1 < k" and nn: "0 \<le> r + 1" by simp_all
    from a have eq: "a + 1 = k * q + (r + 1)" by simp
    have "(a + 1) div k = q" and "(a + 1) mod k = r + 1"
      using int_div_pos_eq [OF eq nn lt] int_mod_pos_eq [OF eq nn lt] by simp_all
    with r show ?thesis by (simp add: q_def)
  qed
qed

lemma leap_mod:
  "(y - 1968) mod 4 = y mod 4" "(y - 1900) mod 100 = y mod 100" "(y - 1600) mod 400 = y mod 400"
  for y :: int
proof -
  show "(y - 1968) mod 4 = y mod 4"
    using mod_mult_self2 [of y 4 "- 492"] by simp
  show "(y - 1900) mod 100 = y mod 100"
    using mod_mult_self2 [of y 100 "- 19"] by simp
  show "(y - 1600) mod 400 = y mod 400"
    using mod_mult_self2 [of y 400 "- 4"] by simp
qed

lemma days_in_year: "DayFromYear (y + 1) = DayFromYear y + sum_list (month_lengths y)"
proof -
  have d4: "(y + 1 - 1969) div 4 = (y - 1969) div 4 + (if y mod 4 = 0 then 1 else 0)"
    using div_succ [of 4 "y - 1969"] leap_mod(1) [of y] by (simp add: algebra_simps)
  have d100: "(y + 1 - 1901) div 100 = (y - 1901) div 100 + (if y mod 100 = 0 then 1 else 0)"
    using div_succ [of 100 "y - 1901"] leap_mod(2) [of y] by (simp add: algebra_simps)
  have d400: "(y + 1 - 1601) div 400 = (y - 1601) div 400 + (if y mod 400 = 0 then 1 else 0)"
    using div_succ [of 400 "y - 1601"] leap_mod(3) [of y] by (simp add: algebra_simps)
  have a: "y mod 4 = 0" if "y mod 100 = 0"
  proof -
    from that have "y = 4 * (25 * (y div 100))"
      using div_mult_mod_eq [of y 100] by simp
    then show ?thesis by (metis mod_mult_self1_is_0)
  qed
  have b: "y mod 100 = 0" if "y mod 400 = 0"
  proof -
    from that have "y = 100 * (4 * (y div 400))"
      using div_mult_mod_eq [of y 400] by simp
    then show ?thesis by (metis mod_mult_self1_is_0)
  qed
  consider "y mod 4 \<noteq> 0" | "y mod 4 = 0" "y mod 100 \<noteq> 0"
    | "y mod 100 = 0" "y mod 400 \<noteq> 0" | "y mod 400 = 0"
    by argo
  then show ?thesis
  proof cases
    case 1
    with a b have "y mod 100 \<noteq> 0" and "y mod 400 \<noteq> 0" by auto
    with 1 show ?thesis
      unfolding DayFromYear_def d4 d100 d400 by (simp add: month_lengths_def InLeapYear_def)
  next
    case 2
    with b have "y mod 400 \<noteq> 0" by auto
    with 2 show ?thesis
      unfolding DayFromYear_def d4 d100 d400 by (simp add: month_lengths_def InLeapYear_def)
  next
    case 3
    with a have "y mod 4 = 0" by auto
    with 3 show ?thesis
      unfolding DayFromYear_def d4 d100 d400 by (simp add: month_lengths_def InLeapYear_def)
  next
    case 4
    with a b have "y mod 100 = 0" and "y mod 4 = 0" by auto
    with 4 show ?thesis
      unfolding DayFromYear_def d4 d100 d400 by (simp add: month_lengths_def InLeapYear_def)
  qed
qed

lemma year_from_spec:
  "DayFromYear y \<le> d \<Longrightarrow> DayFromYear (year_from y d) \<le> d \<and> d < DayFromYear (year_from y d + 1)"
proof (induction y d rule: year_from.induct)
  case (1 y d)
  show ?case
  proof (cases "DayFromYear (y + 1) \<le> d")
    case True
    then have "year_from y d = year_from (y + 1) d"
      by (subst year_from.simps) simp
    with "1.IH" [OF True True] show ?thesis by simp
  next
    case False
    then have "year_from y d = y"
      by (subst year_from.simps) simp
    with False "1.prems" show ?thesis by simp
  qed
qed

lemma leap_days_bound:
  fixes k :: int
  defines "L \<equiv> (k + 1) div 4 - (k + 69) div 100 + (k + 369) div 400"
  shows "400 * L \<le> 97 * k + 589"
proof -
  define A B C where "A = (k + 1) div 4" and "B = (k + 69) div 100" and "C = (k + 369) div 400"
  have "4 * A \<le> k + 1"
    using div_mult_mod_eq [of "k + 1" 4] pos_mod_sign [of 4 "k + 1"] by (simp add: A_def)
  moreover have "k + 69 < 100 * B + 100"
    using div_mult_mod_eq [of "k + 69" 100] pos_mod_bound [of 100 "k + 69"] by (simp add: B_def)
  moreover have "400 * C \<le> k + 369"
    using div_mult_mod_eq [of "k + 369" 400] pos_mod_sign [of 400 "k + 369"] by (simp add: C_def)
  ultimately have "400 * (A - B + C) \<le> 97 * k + 589"
    by simp
  then show ?thesis by (simp add: L_def A_def B_def C_def)
qed

lemma start_year: "DayFromYear (1970 + (if 0 \<le> d then d div 366 else d div 365)) \<le> d"
proof (cases "0 \<le> d")
  case True
  define k where "k = d div 366"
  define L where "L = (k + 1) div 4 - (k + 69) div 100 + (k + 369) div 400"
  from True have k: "0 \<le> k" and d: "366 * k \<le> d"
    using div_mult_mod_eq [of d 366] pos_mod_sign [of 366 d] by (simp_all add: k_def)
  have "L \<le> k"
  proof (cases "2 \<le> k")
    case True
    with leap_days_bound [of k] show ?thesis by (simp add: L_def)
  next
    case False
    with k have "k = 0 \<or> k = 1" by auto
    then show ?thesis by (auto simp: L_def)
  qed
  moreover have "DayFromYear (1970 + k) = 365 * k + L"
    by (simp add: DayFromYear_def L_def algebra_simps)
  ultimately show ?thesis using d True by (simp add: k_def)
next
  case False
  define k where "k = d div 365"
  define L where "L = (k + 1) div 4 - (k + 69) div 100 + (k + 369) div 400"
  from False have k: "k \<le> - 1" and d: "365 * k \<le> d"
    using div_mult_mod_eq [of d 365] pos_mod_sign [of 365 d] pos_mod_bound [of 365 d]
    by (simp_all add: k_def)
  have "L \<le> 0"
  proof (cases "k \<le> - 7")
    case True
    with leap_days_bound [of k] show ?thesis by (simp add: L_def)
  next
    case False
    with k have "k = - 1 \<or> k = - 2 \<or> k = - 3 \<or> k = - 4 \<or> k = - 5 \<or> k = - 6" by auto
    then show ?thesis by (auto simp: L_def)
  qed
  moreover have "DayFromYear (1970 + k) = 365 * k + L"
    by (simp add: DayFromYear_def L_def algebra_simps)
  ultimately show ?thesis using d False by (simp add: k_def)
qed

lemma YearFromDay_spec:
  "DayFromYear (YearFromDay d) \<le> d \<and> d < DayFromYear (YearFromDay d + 1)"
  unfolding YearFromDay_def by (rule year_from_spec) (rule start_year)

lemma month_walk_range:
  assumes "0 \<le> n" and "n < sum_list ls" and "\<forall>l \<in> set ls. 0 < l" and "month_walk ls m n = (m', r)"
  shows "m \<le> m' \<and> m' - m < length ls \<and> 0 \<le> r \<and> r < ls ! (m' - m)"
  using assms
proof (induction ls arbitrary: m n)
  case Nil
  then show ?case by simp
next
  case (Cons l ls)
  show ?case
  proof (cases "n < l")
    case True
    with Cons.prems show ?thesis by simp
  next
    case False
    with Cons.prems have w: "month_walk ls (Suc m) (n - l) = (m', r)"
      and n: "0 \<le> n - l" "n - l < sum_list ls" and p: "\<forall>l \<in> set ls. 0 < l"
      by simp_all
    from Cons.IH [OF n p w]
    have le: "Suc m \<le> m'" and len: "m' - Suc m < length ls" and r: "0 \<le> r" "r < ls ! (m' - Suc m)"
      by simp_all
    from le have "m' - m = Suc (m' - Suc m)" by simp
    with le len r show ?thesis by simp
  qed
qed

lemma month_lengths_facts:
  "length (month_lengths y) = 12" "\<forall>l \<in> set (month_lengths y). 0 < l \<and> l \<le> 31"
  by (simp_all add: month_lengths_def)

lemma month_of_day:
  assumes "month_walk (month_lengths (YearFromDay d)) 0 (d - DayFromYear (YearFromDay d)) = (m, r)"
  shows "m < 12" and "0 \<le> r" and "r < month_lengths (YearFromDay d) ! m" and "r < 31"
    and "MakeDay (YearFromDay d) m (r + 1) = d"
proof -
  let ?y = "YearFromDay d"
  from YearFromDay_spec [of d] have "0 \<le> d - DayFromYear ?y" and "d - DayFromYear ?y < sum_list (month_lengths ?y)"
    by (simp_all add: days_in_year)
  moreover have "\<forall>l \<in> set (month_lengths ?y). 0 < l"
    using month_lengths_facts(2) by blast
  ultimately have "0 \<le> m \<and> m - 0 < length (month_lengths ?y) \<and> 0 \<le> r \<and> r < month_lengths ?y ! (m - 0)"
    using assms by (rule month_walk_range)
  then have m: "m < 12" and r: "0 \<le> r" "r < month_lengths ?y ! m"
    by (simp_all add: month_lengths_facts(1))
  from m have "month_lengths ?y ! m \<in> set (month_lengths ?y)"
    by (simp add: month_lengths_facts(1))
  with month_lengths_facts(2) have "month_lengths ?y ! m \<le> 31" by blast
  with r have "r < 31" by simp
  from month_walk_sum [OF assms] have "MakeDay ?y m (r + 1) = d"
    by (simp add: MakeDay_def)
  with m r \<open>r < 31\<close> show "m < 12" and "0 \<le> r" and "r < month_lengths (YearFromDay d) ! m" and "r < 31"
    and "MakeDay (YearFromDay d) m (r + 1) = d"
    by simp_all
qed

lemma DayFromYear_mono: "y \<le> y' \<Longrightarrow> DayFromYear y \<le> DayFromYear y'"
proof (induction y' rule: int_ge_induct)
  case base
  show ?case by simp
next
  case (step i)
  with DayFromYear_step [of i] show ?case by simp
qed

lemma year_range:
  assumes "- 100000000 \<le> d" and "d \<le> 100000000"
  shows "- 271821 \<le> YearFromDay d" and "YearFromDay d \<le> 275760"
proof -
  let ?y = "YearFromDay d"
  note spec = YearFromDay_spec [of d]
  show "?y \<le> 275760"
  proof (rule ccontr)
    assume "\<not> ?y \<le> 275760"
    then have "275761 \<le> ?y" by simp
    then have "DayFromYear 275761 \<le> DayFromYear ?y" by (rule DayFromYear_mono)
    moreover have "DayFromYear 275761 = 100000110" by (simp add: DayFromYear_def)
    ultimately show False using spec assms by simp
  qed
  show "- 271821 \<le> ?y"
  proof (rule ccontr)
    assume "\<not> - 271821 \<le> ?y"
    then have "?y + 1 \<le> - 271821" by simp
    then have "DayFromYear (?y + 1) \<le> DayFromYear (- 271821)" by (rule DayFromYear_mono)
    moreover have "DayFromYear (- 271821) = - 100000109" by (simp add: DayFromYear_def)
    ultimately show False using spec assms by simp
  qed
qed

lemma six_digits:
  fixes n :: nat
  assumes "n < 1000000"
  shows "n div 100000 < 10"
    and "100000 * (n div 100000) + 10000 * (n div 10000 mod 10) + 1000 * (n div 1000 mod 10)
          + 100 * (n div 100 mod 10) + 10 * (n div 10 mod 10) + n mod 10 = n"
proof -
  define q1 q2 q3 q4 q5 where "q1 = n div 10" and "q2 = n div 100" and "q3 = n div 1000"
    and "q4 = n div 10000" and "q5 = n div 100000"
  have 1: "n = 10 * q1 + n mod 10"
    by (simp add: q1_def)
  have 2: "q1 = 10 * q2 + q1 mod 10"
    using div_div_nat [of n 10 10] div_mult_mod_eq [of q1 10] by (simp add: q1_def q2_def)
  have 3: "q2 = 10 * q3 + q2 mod 10"
    using div_div_nat [of n 100 10] div_mult_mod_eq [of q2 10] by (simp add: q2_def q3_def)
  have 4: "q3 = 10 * q4 + q3 mod 10"
    using div_div_nat [of n 1000 10] div_mult_mod_eq [of q3 10] by (simp add: q3_def q4_def)
  have 5: "q4 = 10 * q5 + q4 mod 10"
    using div_div_nat [of n 10000 10] div_mult_mod_eq [of q4 10] by (simp add: q4_def q5_def)
  from assms show "n div 100000 < 10" by simp
  from 1 2 3 4 5
  have "100000 * q5 + 10000 * (q4 mod 10) + 1000 * (q3 mod 10) + 100 * (q2 mod 10) + 10 * (q1 mod 10)
      + n mod 10 = n"
    by linarith
  then show "100000 * (n div 100000) + 10000 * (n div 10000 mod 10) + 1000 * (n div 1000 mod 10)
          + 100 * (n div 100 mod 10) + 10 * (n div 10 mod 10) + n mod 10 = n"
    by (simp only: q1_def q2_def q3_def q4_def q5_def)
qed

lemma four_digits:
  fixes n :: nat
  assumes "n < 10000"
  shows "n div 1000 < 10"
    and "1000 * (n div 1000) + 100 * (n div 100 mod 10) + 10 * (n div 10 mod 10) + n mod 10 = n"
proof -
  define q1 q2 q3 where "q1 = n div 10" and "q2 = n div 100" and "q3 = n div 1000"
  have 1: "n = 10 * q1 + n mod 10"
    by (simp add: q1_def)
  have 2: "q1 = 10 * q2 + q1 mod 10"
    using div_div_nat [of n 10 10] div_mult_mod_eq [of q1 10] by (simp add: q1_def q2_def)
  have 3: "q2 = 10 * q3 + q2 mod 10"
    using div_div_nat [of n 100 10] div_mult_mod_eq [of q2 10] by (simp add: q2_def q3_def)
  from assms show "n div 1000 < 10" by simp
  from 1 2 3 have "1000 * q3 + 100 * (q2 mod 10) + 10 * (q1 mod 10) + n mod 10 = n"
    by linarith
  then show "1000 * (n div 1000) + 100 * (n div 100 mod 10) + 10 * (n div 10 mod 10) + n mod 10 = n"
    by (simp only: q1_def q2_def q3_def)
qed

lemma num_pad4: "n < 10000 \<Longrightarrow> num (pad 4 n) = Some n"
  using four_digits [of n] by (simp add: pad4 num4)

lemma num_pad6: "n < 1000000 \<Longrightarrow> num (pad 6 n) = Some n"
  using six_digits [of n] by (simp add: pad6 num6)

lemma num_pad2: "n < 100 \<Longrightarrow> num (pad 2 n) = Some n"
  using two_digits [of n] by (simp add: pad2 num2)

lemma parse_date_digits:
  assumes "m < 12" and "1 \<le> dt" and "dt \<le> month_lengths y ! m" and "dt \<le> 31"
    and "parse_time tm = Some ms"
  shows "parse_date y (js ''-'' @ pad 2 (Suc m) @ js ''-'' @ pad 2 (nat dt) @ tm)
    = TimeClip (MakeDay y m dt * msPerDay + ms)"
proof -
  from assms have b: "Suc m < 100" "nat dt < 100" by simp_all
  have str: "js ''-'' @ pad 2 (Suc m) @ js ''-'' @ pad 2 (nat dt) @ tm
    = 0x2D # dg (Suc m div 10) # dg (Suc m mod 10) # 0x2D # dg (nat dt div 10) # dg (nat dt mod 10) # tm"
    by (simp add: js_chars pad2 [OF b(1)] pad2 [OF b(2)])
  have n: "num [dg (Suc m div 10), dg (Suc m mod 10)] = Some (Suc m)"
    "num [dg (nat dt div 10), dg (nat dt mod 10)] = Some (nat dt)"
    using num_pad2 [OF b(1)] num_pad2 [OF b(2)] by (simp_all add: pad2 [OF b(1)] pad2 [OF b(2)])
  from assms(2) have "Suc 0 \<le> nat dt" and "int (nat dt) = dt" by simp_all
  with assms n show ?thesis
    unfolding str parse_date_def by simp
qed

lemma iso_year_parse:
  assumes "- 271821 \<le> y" and "y \<le> 275760"
  shows "parse_iso (iso_year y @ rest) = parse_date y rest"
proof -
  consider "0 \<le> y" "y \<le> 9999" | "y < 0" | "9999 < y" by linarith
  then show ?thesis
  proof cases
    case 1
    then have n: "nat y < 10000" by simp
    from four_digits(1) [OF n] have c: "dg (nat y div 1000) \<noteq> 0x2B" "dg (nat y div 1000) \<noteq> 0x2D"
      by (simp_all add: dg_no_sign)
    have len: "length (pad 4 (nat y)) = 4" by (simp add: pad4 [OF n])
    obtain c0 r0 where p: "pad 4 (nat y) = c0 # r0" and c0: "c0 = dg (nat y div 1000)"
      by (simp add: pad4 [OF n])
    from len p have r0: "length r0 = 3" by simp
    with p have t: "take 4 (c0 # r0 @ rest) = pad 4 (nat y)" and d: "drop 4 (c0 # r0 @ rest) = rest"
      by simp_all
    from 1 have "iso_year y @ rest = c0 # r0 @ rest"
      by (simp add: iso_year_def p)
    with c c0 t d n 1 r0 show ?thesis
      by (simp add: parse_iso_def num_pad4 del: take_Cons_numeral drop_Cons_numeral)
  next
    case 2
    with assms have n: "nat \<bar>y\<bar> < 1000000" and nz: "nat \<bar>y\<bar> \<noteq> 0" by simp_all
    have len: "length (pad 6 (nat \<bar>y\<bar>)) = 6" by (simp add: pad6 [OF n])
    then have t: "take 6 (pad 6 (nat \<bar>y\<bar>) @ rest) = pad 6 (nat \<bar>y\<bar>)"
      and d: "drop 6 (pad 6 (nat \<bar>y\<bar>) @ rest) = rest"
      by simp_all
    from 2 have "iso_year y @ rest = 0x2D # pad 6 (nat \<bar>y\<bar>) @ rest"
      by (simp add: iso_year_def js_chars)
    with t d n nz len 2 show ?thesis
      by (simp add: parse_iso_def num_pad6)
  next
    case 3
    with assms have n: "nat \<bar>y\<bar> < 1000000" by simp
    have len: "length (pad 6 (nat \<bar>y\<bar>)) = 6" by (simp add: pad6 [OF n])
    then have t: "take 6 (pad 6 (nat \<bar>y\<bar>) @ rest) = pad 6 (nat \<bar>y\<bar>)"
      and d: "drop 6 (pad 6 (nat \<bar>y\<bar>) @ rest) = rest"
      by simp_all
    from 3 have "iso_year y @ rest = 0x2B # pad 6 (nat \<bar>y\<bar>) @ rest"
      by (simp add: iso_year_def js_chars)
    with t d n len 3 show ?thesis
      by (simp add: parse_iso_def num_pad6)
  qed
qed

lemma parse_iso_iso_string:
  assumes "\<bar>t\<bar> \<le> 8640000000000000"
  shows "parse_iso (iso_string t) = Time t"
proof -
  define d ms y where "d = Day t" and "ms = t mod msPerDay" and "y = YearFromDay d"
  obtain m r where walk: "month_walk (month_lengths (YearFromDay d)) 0 (d - DayFromYear (YearFromDay d)) = (m, r)"
    by (cases "month_walk (month_lengths (YearFromDay d)) 0 (d - DayFromYear (YearFromDay d))") auto
  note md = month_of_day [OF walk]
  have ms: "0 \<le> ms" "ms < 86400000"
    by (simp_all add: ms_def msPerDay_def)
  define tm where "tm = js ''T'' @ pad 2 (nat (ms div 3600000)) @ js '':'' @ pad 2 (nat (ms div 60000 mod 60))
      @ js '':'' @ pad 2 (nat (ms div 1000 mod 60)) @ js ''.'' @ pad 3 (nat (ms mod 1000)) @ js ''Z''"
  have "parse_time tm = Some (int (nat (ms div 3600000)) * 3600000 + int (nat (ms div 60000 mod 60)) * 60000
          + int (nat (ms div 1000 mod 60)) * 1000 + int (nat (ms mod 1000)))"
    unfolding tm_def using time_of_day(1-4) [OF ms] by (rule parse_time_digits)
  then have tm: "parse_time tm = Some ms"
    by (simp only: time_of_day(5) [OF ms])
  have d: "- 100000000 \<le> d" "d \<le> 100000000"
    using assms by (simp_all add: d_def Day_def msPerDay_def)
  have y: "- 271821 \<le> y" "y \<le> 275760"
    unfolding y_def using d by (rule year_range)+
  have str: "iso_string t = iso_year y @ (js ''-'' @ pad 2 (Suc m) @ js ''-'' @ pad 2 (nat (r + 1)) @ tm)"
    using walk by (simp add: iso_string_def Let_def d_def [symmetric] ms_def [symmetric]
        y_def [symmetric] tm_def)
  have "parse_iso (iso_string t) = parse_date y (js ''-'' @ pad 2 (Suc m) @ js ''-'' @ pad 2 (nat (r + 1)) @ tm)"
    unfolding str using y by (rule iso_year_parse)
  also have "\<dots> = TimeClip (MakeDay y m (r + 1) * msPerDay + ms)"
    using md(1-4) tm by (intro parse_date_digits) (simp_all add: y_def)
  also have "MakeDay y m (r + 1) = d"
    using md(5) by (simp add: y_def)
  also have "d * msPerDay + ms = t"
    by (simp add: d_def ms_def Day_def)
  also have "TimeClip t = Time t"
    using assms by (simp add: TimeClip_def)
  finally show ?thesis .
qed

subsection \<open>Loading and saving\<close>

lemma is_saved_todo_json: "is_saved_todo (todo_json P t)"
  by (simp add: is_saved_todo_def todo_json_def date_json_def is_date_json_def
      split: option.splits date.splits)

lemma save_is_saved_todos: "save P ts = Some (JsonText v) \<Longrightarrow> is_saved_todos v"
  by (auto simp: save_def is_saved_todos_def list_all_iff is_saved_todo_json)


lemma collect_Inr:
  "\<forall>r \<in> set rs. \<exists>a. r = Inr a \<Longrightarrow> \<exists>as. collect rs = Inr as \<and> length as = length rs"
proof (induction rs rule: collect.induct)
  case 1
  then show ?case by simp
next
  case (2 e rs)
  then show ?case by simp
next
  case (3 a rs)
  then show ?case by auto
qed






lemma revivable_revive: "revivable v \<Longrightarrow> \<exists>ob. revive P v = Inr ob"
  by (auto simp: revivable_def revive_def get_createdAt_def new_Date_def
      split: json.splits option.splits)



lemma get_createdAt_Inl: "get_createdAt x = Inl e \<longleftrightarrow> x = JNull \<and> e = TypeError"
  by (cases x) (auto simp: get_createdAt_def)

lemma collect_map_Inr: "\<forall>x \<in> set xs. f x = Inr (g x) \<Longrightarrow> collect (map f xs) = Inr (map g xs)"
  by (induction xs) simp_all

lemma loaded_lookup:
  "map_of (AList.update key (DateObj d) (map (\<lambda>(k, v). (k, Json v)) ps)) k
     = (if k = key then Some (DateObj d) else map_option Json (map_of ps k))"
  by (simp add: update_conv' map_of_map)

lemma loaded_keys:
  "map fst (AList.update key (DateObj d) (map (\<lambda>(k, v). (k, Json v)) ps))
     = (if key \<in> fst ` set ps then map fst ps else map fst ps @ [key])"
  by (simp add: update_keys comp_def case_prod_beta image_image)




text \<open>
  What loading makes of what was saved, on any host: \<open>createdAt\<close> is parsed back from
  its ISO text (an invalid one, saved as \<open>null\<close>, comes back as the epoch), and
  \<open>dueDate\<close> stays the value that was stored. Read at the interface \<open>Todo\<close>, the
  collection comes back as it was when no task has a \<open>dueDate\<close> and \<open>Date.parse\<close>
  reads back the ISO text of each \<open>createdAt\<close>; it does not when a task has a
  \<open>dueDate\<close>.
\<close>

lemma key_simps:
  "js ''id'' \<noteq> js ''title''" "js ''id'' \<noteq> js ''completed''" "js ''id'' \<noteq> js ''createdAt''"
  "js ''id'' \<noteq> js ''dueDate''" "js ''title'' \<noteq> js ''completed''" "js ''title'' \<noteq> js ''createdAt''"
  "js ''title'' \<noteq> js ''dueDate''" "js ''completed'' \<noteq> js ''createdAt''"
  "js ''completed'' \<noteq> js ''dueDate''" "js ''createdAt'' \<noteq> js ''dueDate''"
  by (simp_all add: js_def)

lemma revive_todo_json:
  "revive P (todo_json P t) =
     Inr ([(js ''id'', Json (JNum (Fin (of_int (tid t))))),
           (js ''title'', Json (JStr (title t))),
           (js ''completed'', Json (JBool (completed t))),
           (js ''createdAt'',
              DateObj (case createdAt t of Invalid \<Rightarrow> Time 0 | Time n \<Rightarrow> Date_parse P (toISOString P n)))] @
          (case dueDate t of None \<Rightarrow> [] | Some d \<Rightarrow> [(js ''dueDate'', Json (date_json P d))]))"
  by (simp add: revive_def todo_json_def get_createdAt_def date_json_def new_Date_def own_props_def
      key_simps key_simps [symmetric] split: date.splits option.splits)

lemma read_revived:
  assumes "revive P (todo_json P t) = Inr ob"
  shows "read_todo ob =
     (case dueDate t of
        None \<Rightarrow> Some (t \<lparr> createdAt := (case createdAt t of Invalid \<Rightarrow> Time 0
                                          | Time n \<Rightarrow> Date_parse P (toISOString P n)) \<rparr>)
      | Some d \<Rightarrow> None)"
  using assms unfolding revive_todo_json
  by (cases t) (auto simp: read_todo_def key_simps key_simps [symmetric] split: option.splits)

lemma load_save:
  "load P (save P ts) =
     (map (\<lambda>t. [(js ''id'', Json (JNum (Fin (of_int (tid t))))),
           (js ''title'', Json (JStr (title t))),
           (js ''completed'', Json (JBool (completed t))),
           (js ''createdAt'',
              DateObj (case createdAt t of Invalid \<Rightarrow> Time 0 | Time n \<Rightarrow> Date_parse P (toISOString P n)))] @
          (case dueDate t of None \<Rightarrow> [] | Some d \<Rightarrow> [(js ''dueDate'', Json (date_json P d))])) ts, None)"
proof -
  have "collect (map (revive P) (map (todo_json P) ts)) = Inr (map (\<lambda>t. [(js ''id'', Json (JNum (Fin (of_int (tid t))))),
           (js ''title'', Json (JStr (title t))),
           (js ''completed'', Json (JBool (completed t))),
           (js ''createdAt'',
              DateObj (case createdAt t of Invalid \<Rightarrow> Time 0 | Time n \<Rightarrow> Date_parse P (toISOString P n)))] @
          (case dueDate t of None \<Rightarrow> [] | Some d \<Rightarrow> [(js ''dueDate'', Json (date_json P d))])) ts)"
    unfolding map_map by (rule collect_map_Inr) (simp add: revive_todo_json)
  then show ?thesis by (simp add: load_def save_def revive_all_def)
qed

lemma load_save_read:
  "map read_todo (fst (load P (save P ts))) =
     map (\<lambda>t. case dueDate t of
                 None \<Rightarrow> Some (t \<lparr> createdAt := (case createdAt t of Invalid \<Rightarrow> Time 0
                                          | Time n \<Rightarrow> Date_parse P (toISOString P n)) \<rparr>)
               | Some d \<Rightarrow> None) ts"
proof -
  have "read_todo ([(js ''id'', Json (JNum (Fin (of_int (tid t))))),
           (js ''title'', Json (JStr (title t))),
           (js ''completed'', Json (JBool (completed t))),
           (js ''createdAt'',
              DateObj (case createdAt t of Invalid \<Rightarrow> Time 0 | Time n \<Rightarrow> Date_parse P (toISOString P n)))] @
          (case dueDate t of None \<Rightarrow> [] | Some d \<Rightarrow> [(js ''dueDate'', Json (date_json P d))]))
      = (case dueDate t of
                 None \<Rightarrow> Some (t \<lparr> createdAt := (case createdAt t of Invalid \<Rightarrow> Time 0
                                          | Time n \<Rightarrow> Date_parse P (toISOString P n)) \<rparr>)
               | Some d \<Rightarrow> None)" for t
    by (rule read_revived [OF revive_todo_json])
  then show ?thesis by (simp add: load_save)
qed

lemma load_save_round_trip:
  assumes "\<forall>t \<in> set ts. dueDate t = None
      \<and> (\<exists>n. createdAt t = Time n \<and> Date_parse P (toISOString P n) = Time n)"
  shows "map read_todo (fst (load P (save P ts))) = map Some ts"
  unfolding load_save_read using assms by (auto split: option.splits)

lemma load_save_dueDate_lost:
  assumes "t \<in> set ts" and "dueDate t \<noteq> None"
  shows "map read_todo (fst (load P (save P ts))) \<noteq> map Some ts"
proof
  assume "map read_todo (fst (load P (save P ts))) = map Some ts"
  then have "\<forall>t \<in> set ts. (case dueDate t of
                 None \<Rightarrow> Some (t \<lparr> createdAt := (case createdAt t of Invalid \<Rightarrow> Time 0
                                          | Time n \<Rightarrow> Date_parse P (toISOString P n)) \<rparr>)
               | Some d \<Rightarrow> None) = Some t"
    unfolding load_save_read by simp
  with assms show False by (auto split: option.splits)
qed

text \<open>
  On the reference host, in any zone, a collection whose tasks have no \<open>dueDate\<close> and
  a valid \<open>createdAt\<close> comes back from a save and a load as it was.
\<close>

lemma host_round_trip:
  assumes "\<forall>t \<in> set ts. dueDate t = None
      \<and> (\<exists>n. createdAt t = Time n \<and> \<bar>n\<bar> \<le> 8640000000000000)"
  shows "map read_todo (fst (load (host off) (save (host off) ts))) = map Some ts"
proof (rule load_save_round_trip)
  show "\<forall>t \<in> set ts. dueDate t = None
      \<and> (\<exists>n. createdAt t = Time n
            \<and> Date_parse (host off) (toISOString (host off) n) = Time n)"
  proof
    fix t assume "t \<in> set ts"
    with assms obtain n where "dueDate t = None" and "createdAt t = Time n"
      and "\<bar>n\<bar> \<le> 8640000000000000"
      by blast
    then show "dueDate t = None
      \<and> (\<exists>n. createdAt t = Time n
            \<and> Date_parse (host off) (toISOString (host off) n) = Time n)"
      by (simp add: host_def parse_iso_iso_string)
  qed
qed

lemma due_tasks_eq:
  "due_tasks = [\<lparr> tid = 1715000000000, title = js ''A'', completed = False,
                   createdAt = Time 1715000000000, dueDate = Some (Time 1715299200000) \<rparr>]"
proof -
  have "parse_iso (js ''2024-05-10'') = Time 1715299200000"
    by code_simp
  then show ?thesis
    by (simp add: due_tasks_def todos_add newTodo_def trim_A host_def)
qed

text \<open>
  C1 at a failing input. A task is added with the date text \<open>2024-05-10\<close>, the
  collection is saved and loaded again. The loaded object has a \<open>Date\<close> for
  \<open>createdAt\<close>, at the instant saved, and for \<open>dueDate\<close> the ISO text that was stored:
  it is not a task of the interface \<open>Todo\<close>.
\<close>

theorem load_save_dueDate_text:
  "load (host 0) (save (host 0) due_tasks) =
     ([[(js ''id'', Json (JNum (Fin 1715000000000))),
        (js ''title'', Json (JStr (js ''A''))),
        (js ''completed'', Json (JBool False)),
        (js ''createdAt'', DateObj (Time 1715000000000)),
        (js ''dueDate'', Json (JStr (js ''2024-05-10T00:00:00.000Z'')))]], None)
   \<and> map read_todo (fst (load (host 0) (save (host 0) due_tasks))) = [None]
   \<and> map Some due_tasks = [Some \<lparr> tid = 1715000000000, title = js ''A'', completed = False,
        createdAt = Time 1715000000000, dueDate = Some (Time 1715299200000) \<rparr>]"
proof -
  have iso: "iso_string 1715299200000 = js ''2024-05-10T00:00:00.000Z''"
    by code_simp
  have reads: "parse_iso (iso_string 1715000000000) = Time 1715000000000"
    by code_simp
  have 1: "load (host 0) (save (host 0) due_tasks) =
     ([[(js ''id'', Json (JNum (Fin 1715000000000))),
        (js ''title'', Json (JStr (js ''A''))),
        (js ''completed'', Json (JBool False)),
        (js ''createdAt'', DateObj (Time 1715000000000)),
        (js ''dueDate'', Json (JStr (js ''2024-05-10T00:00:00.000Z'')))]], None)"
    by (simp add: load_save due_tasks_eq date_json_def host_def iso reads)
  have 2: "map read_todo (fst (load (host 0) (save (host 0) due_tasks))) = [None]"
    by (simp add: load_save_read due_tasks_eq)
  from 1 2 show ?thesis by (simp add: due_tasks_eq)
qed

end
